theory Spec2Isabelle
  imports Complex_Main
begin

section \<open>Data model (App.tsx, FaceMeshView part)\<close>

text \<open>
  JavaScript numbers are modelled as mathematical reals (coordinates, openness) and as
  integers (millisecond timestamps of \<open>Date.now()\<close>); face ids are array indices,
  hence naturals; \<open>number | null\<close> is \<open>nat option\<close>.
  The fields \<open>x\<close>, \<open>y\<close>, \<open>z\<close> of \<open>FaceLandmark\<close> and \<open>id\<close> of \<open>FaceData\<close> carry a
  prefix, since a record field is a global constant.
\<close>

record FaceLandmark =
  lm_x :: real
  lm_y :: real
  lm_z :: real

record FaceData =
  faceId :: nat
  landmarks :: "FaceLandmark list"
  isMovingMouth :: bool
  mouthOpenDistance :: real
  lastUpdateTime :: int

definition MOUTH_MOVEMENT_THRESHOLD :: real where
  "MOUTH_MOVEMENT_THRESHOLD = 3 / 1000"

definition MOUTH_MOVEMENT_TIMEOUT :: int where
  "MOUTH_MOVEMENT_TIMEOUT = 1500"

text \<open>
  Reading \<open>arr[i]\<close> from a JavaScript array: \<open>undefined\<close> (here \<open>None\<close>) when the index is
  out of range. An element of a \<open>FaceLandmark[]\<close> is an object and therefore truthy, so
  the test \<open>if (arr[i])\<close> is the test for \<open>Some\<close>.
\<close>

definition arrayGet :: "'a list \<Rightarrow> nat \<Rightarrow> 'a option" where
  "arrayGet xs i = (if i < length xs then Some (xs ! i) else None)"

section \<open>Mouth openness\<close>

definition calculateDistance :: "FaceLandmark \<Rightarrow> FaceLandmark \<Rightarrow> real" where
  "calculateDistance landmark1 landmark2 =
     (let dx = lm_x landmark1 - lm_x landmark2;
          dy = lm_y landmark1 - lm_y landmark2;
          dz = lm_z landmark1 - lm_z landmark2
      in sqrt (dx * dx + dy * dy + dz * dz))"

definition upperLipPoints :: "nat list" where
  "upperLipPoints = [0, 13, 14, 17, 37, 39, 40, 61, 185, 267, 269, 270, 409]"

definition lowerLipPoints :: "nat list" where
  "lowerLipPoints = [14, 17, 84, 87, 91, 146, 181, 306, 308, 324, 375, 402, 405]"

text \<open>
  The \<open>for\<close> loop of \<open>calculateMouthOpenness\<close> runs \<open>i\<close> over
  \<open>0 ..< min (upper length) (lower length)\<close>, that is over \<open>zip upperLipPoints lowerLipPoints\<close>;
  the accumulator is the pair \<open>(totalDistance, pairsCount)\<close>.
\<close>

fun opennessLoop :: "FaceLandmark list \<Rightarrow> (nat \<times> nat) list \<Rightarrow> real \<times> nat \<Rightarrow> real \<times> nat" where
  "opennessLoop lms [] acc = acc"
| "opennessLoop lms ((upperIdx, lowerIdx) # ps) (totalDistance, pairsCount) =
     (case arrayGet lms upperIdx of
        None \<Rightarrow> opennessLoop lms ps (totalDistance, pairsCount)
      | Some a \<Rightarrow>
          (case arrayGet lms lowerIdx of
             None \<Rightarrow> opennessLoop lms ps (totalDistance, pairsCount)
           | Some b \<Rightarrow>
               opennessLoop lms ps (totalDistance + calculateDistance a b, pairsCount + 1)))"

definition calculateMouthOpenness :: "FaceLandmark list \<Rightarrow> real" where
  "calculateMouthOpenness lms =
     (case opennessLoop lms (zip upperLipPoints lowerLipPoints) (0, 0) of
        (totalDistance, pairsCount) \<Rightarrow>
          if pairsCount > 0 then totalDistance / real pairsCount else 0)"

text \<open>
  The specification's reading: the configured pairs whose two indices both exist in the
  landmark set.
\<close>

definition validPairs :: "FaceLandmark list \<Rightarrow> (nat \<times> nat) list" where
  "validPairs lms =
     filter (\<lambda>p. fst p < length lms \<and> snd p < length lms) (zip upperLipPoints lowerLipPoints)"

definition pairDistance :: "FaceLandmark list \<Rightarrow> nat \<times> nat \<Rightarrow> real" where
  "pairDistance lms p = calculateDistance (lms ! fst p) (lms ! snd p)"

section \<open>Mouth movement\<close>

text \<open>
  \<open>previousMouthOpennessRef.current[faceId] || currentOpenness\<close>: the right operand is taken
  when the left one is falsy, that is when the entry is missing (\<open>undefined\<close>) and also when
  the stored number is \<open>0\<close>.
\<close>

definition orDefault :: "real option \<Rightarrow> real \<Rightarrow> real" where
  "orDefault stored d = (case stored of None \<Rightarrow> d | Some p \<Rightarrow> if p = 0 then d else p)"

text \<open>
  The history object is a map from face id to number; the function returns the flag
  together with the updated history.
\<close>

definition detectMouthMovement ::
  "(nat \<rightharpoonup> real) \<Rightarrow> nat \<Rightarrow> real \<Rightarrow> bool \<times> (nat \<rightharpoonup> real)" where
  "detectMouthMovement hist fid currentOpenness =
     (let previousOpenness = orDefault (hist fid) currentOpenness;
          difference = \<bar>currentOpenness - previousOpenness\<bar>
      in (difference > MOUTH_MOVEMENT_THRESHOLD, hist(fid \<mapsto> currentOpenness)))"

section \<open>Face tracking and active speaker selection\<close>

text \<open>
  \<open>updateFaceData\<close>: the time read by \<open>Date.now()\<close> is the parameter \<open>currentTime\<close>. The
  source also looks up \<open>existingFace\<close> and never uses it. The history is threaded through.
\<close>

definition updateFaceData ::
  "int \<Rightarrow> (nat \<rightharpoonup> real) \<Rightarrow> FaceLandmark list \<Rightarrow> nat \<Rightarrow> FaceData \<times> (nat \<rightharpoonup> real)" where
  "updateFaceData currentTime hist faceLandmarks faceIndex =
     (let currentMouthOpenness = calculateMouthOpenness faceLandmarks;
          detected = detectMouthMovement hist faceIndex currentMouthOpenness
      in (\<lparr>faceId = faceIndex, landmarks = faceLandmarks, isMovingMouth = fst detected,
           mouthOpenDistance = currentMouthOpenness, lastUpdateTime = currentTime\<rparr>,
          snd detected))"

text \<open>
  \<open>Array.prototype.sort\<close> with a comparator is a stable sort: \<open>a\<close> stays before \<open>b\<close> unless
  the comparator asks for \<open>b\<close> first (\<open>cmp a b > 0\<close>). It is written here as insertion from
  the right.
\<close>

fun insertBy :: "('a \<Rightarrow> 'a \<Rightarrow> real) \<Rightarrow> 'a \<Rightarrow> 'a list \<Rightarrow> 'a list" where
  "insertBy cmp a [] = [a]"
| "insertBy cmp a (b # bs) = (if cmp a b \<le> 0 then a # b # bs else b # insertBy cmp a bs)"

fun arraySort :: "('a \<Rightarrow> 'a \<Rightarrow> real) \<Rightarrow> 'a list \<Rightarrow> 'a list" where
  "arraySort cmp [] = []"
| "arraySort cmp (a # as) = insertBy cmp a (arraySort cmp as)"

definition movingFacesOf :: "int \<Rightarrow> FaceData list \<Rightarrow> FaceData list" where
  "movingFacesOf currentTime updatedFaces =
     filter (\<lambda>face. isMovingMouth face
                \<or> currentTime - lastUpdateTime face < MOUTH_MOVEMENT_TIMEOUT) updatedFaces"

text \<open>
  \<open>determineSpeakingFace\<close>, with the clock value and the content of \<open>activeFaceIdRef\<close> as
  parameters. The last \<open>case\<close> has no empty branch in the source: the sorted array has the
  length of \<open>movingFaces\<close>, which is not 0 there.
\<close>

definition determineSpeakingFace :: "int \<Rightarrow> nat option \<Rightarrow> FaceData list \<Rightarrow> nat option" where
  "determineSpeakingFace currentTime activeRef updatedFaces =
     (let movingFaces = movingFacesOf currentTime updatedFaces
      in if length movingFaces = 0
         then (case activeRef of
                 Some a \<Rightarrow> Some a
               | None \<Rightarrow> (case updatedFaces of [] \<Rightarrow> None | f # _ \<Rightarrow> Some (faceId f)))
         else (case arraySort (\<lambda>a b. mouthOpenDistance b - mouthOpenDistance a) movingFaces of
                 f # _ \<Rightarrow> Some (faceId f)
               | [] \<Rightarrow> None))"

section \<open>Caption layout (FaceMeshRenderer.tsx)\<close>

text \<open>
  \<open>text.split(' ')\<close>: the pieces between the separators, empty pieces included; the empty
  string gives one empty piece.
\<close>

fun splitOn :: "char \<Rightarrow> string \<Rightarrow> string list" where
  "splitOn sep [] = [[]]"
| "splitOn sep (c # cs) =
     (if c = sep then [] # splitOn sep cs
      else (case splitOn sep cs of w # ws \<Rightarrow> (c # w) # ws | [] \<Rightarrow> [[c]]))"

text \<open>\<open>lines.join(' ')\<close>.\<close>

fun joinSpaces :: "string list \<Rightarrow> string" where
  "joinSpaces [] = []"
| "joinSpaces [l] = l"
| "joinSpaces (l # l' # ls) = l @ '' '' @ joinSpaces (l' # ls)"

definition testLineOf :: "string \<Rightarrow> string \<Rightarrow> string" where
  "testLineOf currentLine word =
     (if currentLine \<noteq> [] then currentLine @ '' '' @ word else word)"

text \<open>
  The \<open>forEach\<close> of \<open>wrapText\<close> over the words, on the state \<open>(lines, currentLine)\<close>;
  \<open>ctx.measureText(s).width\<close> is the parameter \<open>measureText\<close>.
\<close>

fun wrapLoop ::
  "(string \<Rightarrow> real) \<Rightarrow> real \<Rightarrow> string list \<Rightarrow> string list \<times> string \<Rightarrow> string list \<times> string" where
  "wrapLoop measureText maxWidth [] st = st"
| "wrapLoop measureText maxWidth (word # words) (lines, currentLine) =
     (let testLine = testLineOf currentLine word
      in if measureText testLine > maxWidth \<and> currentLine \<noteq> []
         then wrapLoop measureText maxWidth words (lines @ [currentLine], word)
         else wrapLoop measureText maxWidth words (lines, testLine))"

definition flushLine :: "string list \<times> string \<Rightarrow> string list" where
  "flushLine st = (if snd st \<noteq> [] then fst st @ [snd st] else fst st)"

definition wrapText :: "(string \<Rightarrow> real) \<Rightarrow> string \<Rightarrow> real \<Rightarrow> string list" where
  "wrapText measureText text maxWidth =
     flushLine (wrapLoop measureText maxWidth (splitOn CHR '' '' text) ([], []))"

text \<open>
  The greedy layout in the specification's words, on the produced lines: within a line
  every prefix of two or more words fits the width, and a line followed by the first word
  of the next line does not.
\<close>

definition lineFits :: "(string \<Rightarrow> real) \<Rightarrow> real \<Rightarrow> string \<Rightarrow> bool" where
  "lineFits measureText maxWidth l =
     list_all (\<lambda>k. measureText (joinSpaces (take k (splitOn CHR '' '' l))) \<le> maxWidth)
       [2 ..< Suc (length (splitOn CHR '' '' l))]"

fun breaksForced :: "(string \<Rightarrow> real) \<Rightarrow> real \<Rightarrow> string list \<Rightarrow> bool" where
  "breaksForced measureText maxWidth (l # l' # ls) =
     (measureText (l @ '' '' @ hd (splitOn CHR '' '' l')) > maxWidth
      \<and> breaksForced measureText maxWidth (l' # ls))"
| "breaksForced measureText maxWidth ls = True"

text \<open>The words of a list that are not the empty string.\<close>

definition nonEmptyWords :: "string list \<Rightarrow> string list" where
  "nonEmptyWords ws = filter (\<lambda>w. w \<noteq> []) ws"

text \<open>A line of more than one word is within the width.\<close>

definition fitsIfSeveral :: "(string \<Rightarrow> real) \<Rightarrow> real \<Rightarrow> string \<Rightarrow> bool" where
  "fitsIfSeveral measureText maxWidth l =
     (if 1 < length (splitOn CHR '' '' l) then measureText l \<le> maxWidth else True)"

text \<open>A fixed-pitch measure (8 px per character), used to evaluate the layout on examples.\<close>

definition fixedPitch :: "string \<Rightarrow> real" where
  "fixedPitch s = 8 * real (length s)"

text \<open>
  A measure that is not monotone: the string \<open>a\<close> followed by one space is wide, every
  other string has width 0.
\<close>

definition spikeMeasure :: "string \<Rightarrow> real" where
  "spikeMeasure s = (if s = ''a '' then 100 else 0)"

section \<open>Overlay renderer\<close>

text \<open>
  The canvas is written to only; the renderer is modelled by the list of drawing calls it
  makes. Reading a property of \<open>undefined\<close> throws a \<open>TypeError\<close>, so the reads of
  \<open>forehead.x\<close> and \<open>forehead.y\<close> are fallible and the renderer returns \<open>JsError + _\<close>.
\<close>

datatype JsError = TypeError

datatype DrawOp =
    DrawConnectors string string real
  | DrawLandmarks string real real
  | Sphere real real real string
  | Bubble string real real real real real real
  | Highlight string real real real real
  | FillText string string real real

definition bindE :: "'e + 'a \<Rightarrow> ('a \<Rightarrow> 'e + 'b) \<Rightarrow> 'e + 'b" where
  "bindE r f = (case r of Inl e \<Rightarrow> Inl e | Inr v \<Rightarrow> f v)"

definition readX :: "FaceLandmark option \<Rightarrow> JsError + real" where
  "readX v = (case v of None \<Rightarrow> Inl TypeError | Some p \<Rightarrow> Inr (lm_x p))"

definition readY :: "FaceLandmark option \<Rightarrow> JsError + real" where
  "readY v = (case v of None \<Rightarrow> Inl TypeError | Some p \<Rightarrow> Inr (lm_y p))"

definition truthy :: "'a option \<Rightarrow> bool" where
  "truthy v = (case v of None \<Rightarrow> False | Some _ \<Rightarrow> True)"

definition drawSphere :: "real \<Rightarrow> real \<Rightarrow> real \<Rightarrow> string \<Rightarrow> DrawOp list" where
  "drawSphere cx cy radius color = [Sphere cx cy radius color]"

definition drawMesh :: "DrawOp list" where
  "drawMesh =
     DrawConnectors ''FACEMESH_TESSELATION'' ''rgba(255,255,255,0.08)'' (1 / 2)
     # map (\<lambda>feature. DrawConnectors feature ''rgba(255,255,255,0.3)'' (8 / 10))
         [''FACEMESH_RIGHT_EYE'', ''FACEMESH_LEFT_EYE'', ''FACEMESH_RIGHT_EYEBROW'',
          ''FACEMESH_LEFT_EYEBROW'', ''FACEMESH_FACE_OVAL'', ''FACEMESH_LIPS'']
     @ [DrawLandmarks ''rgba(255,255,255,0.2)'' (1 / 2) (8 / 10)]"

text \<open>The caption block of \<open>FaceMeshRenderer\<close>, for the anchor point \<open>(ax, ay)\<close> in pixels.\<close>

definition drawCaption ::
  "(string \<Rightarrow> real) \<Rightarrow> real \<Rightarrow> real \<Rightarrow> string \<Rightarrow> bool \<Rightarrow> DrawOp list" where
  "drawCaption measureText ax ay captionText isActiveFace =
     (let displayText = (if captionText \<noteq> [] then captionText else ''Speak to add captions...'');
          maxBoxWidth = 300;
          lineHeight = 20;
          textLines = wrapText measureText displayText (maxBoxWidth - 40);
          textWidth = maxBoxWidth;
          textHeight = max (lineHeight * real (length textLines) + 20) 46;
          indicatorHeight = 12;
          verticalOffset = textHeight + 50
      in [Bubble (if isActiveFace then ''rgba(0, 132, 255, 0.85)'' else ''rgba(0, 132, 255, 0.45)'')
            (ax - textWidth / 2) (ay - verticalOffset) textWidth textHeight
            ax (ay - verticalOffset + textHeight + indicatorHeight),
          Highlight (if isActiveFace then ''rgba(255, 255, 255, 0.2)'' else ''rgba(255, 255, 255, 0.15)'')
            (ax - textWidth / 2) (ay - verticalOffset) textWidth 20]
         @ map (\<lambda>(index, line).
                  FillText (if isActiveFace then ''white'' else ''rgba(255, 255, 255, 0.8)'') line
                    (- ax) (ay - verticalOffset + real index * lineHeight + lineHeight / 2 + 10))
             (enumerate 0 textLines))"

definition FaceMeshRenderer ::
  "(string \<Rightarrow> real) \<Rightarrow> FaceLandmark list \<Rightarrow> real \<Rightarrow> real \<Rightarrow> string \<Rightarrow> bool
     \<Rightarrow> JsError + DrawOp list" where
  "FaceMeshRenderer measureText lms canvasWidth canvasHeight captionText isActiveFace =
     (let forehead = arrayGet lms 10
      in bindE
           (if truthy forehead
            then bindE (readX forehead) (\<lambda>fx. bindE (readY forehead) (\<lambda>fy.
                   Inr (drawSphere (fx * canvasWidth) (fy * canvasHeight) 6
                          (if isActiveFace then ''#ADD8E6'' else ''#AAAAAA''))))
            else Inr [])
           (\<lambda>marker. bindE
              (if truthy forehead \<and> captionText \<noteq> []
               then bindE (readX forehead) (\<lambda>fx. bindE (readY forehead) (\<lambda>fy.
                      Inr (drawCaption measureText (fx * canvasWidth) (fy * canvasHeight)
                             captionText isActiveFace)))
               else Inr [])
              (\<lambda>bubble. Inr (drawMesh @ marker @ bubble))))"

definition isSphere :: "DrawOp \<Rightarrow> bool" where
  "isSphere op = (case op of Sphere _ _ _ _ \<Rightarrow> True | _ \<Rightarrow> False)"

definition isBubble :: "DrawOp \<Rightarrow> bool" where
  "isBubble op = (case op of Bubble _ _ _ _ _ _ _ \<Rightarrow> True | _ \<Rightarrow> False)"

definition bubbleHeights :: "DrawOp list \<Rightarrow> real list" where
  "bubbleHeights ops = concat (map (\<lambda>op. case op of Bubble _ _ _ _ h _ _ \<Rightarrow> [h] | _ \<Rightarrow> []) ops)"

section \<open>The per-frame callback\<close>

record ViewState =
  previousMouthOpennessRef :: "nat \<rightharpoonup> real"
  activeFaceIdRef :: "nat option"
  faces :: "FaceData list"

text \<open>
  The first \<open>forEach\<close> of \<open>onResults\<close>: one record per landmark set, the id being the index;
  \<open>clock i\<close> is the time read while face \<open>i\<close> is updated.
\<close>

fun updateAll ::
  "(nat \<Rightarrow> int) \<Rightarrow> (nat \<rightharpoonup> real) \<Rightarrow> FaceLandmark list list \<Rightarrow> nat
     \<Rightarrow> FaceData list \<times> (nat \<rightharpoonup> real)" where
  "updateAll clock hist [] index = ([], hist)"
| "updateAll clock hist (lms # rest) index =
     (let updated = updateFaceData (clock index) hist lms index;
          others = updateAll clock (snd updated) rest (Suc index)
      in (fst updated # fst others, snd others))"

definition trackFaces ::
  "(nat \<Rightarrow> int) \<Rightarrow> (nat \<rightharpoonup> real) \<Rightarrow> FaceLandmark list list option
     \<Rightarrow> FaceData list \<times> (nat \<rightharpoonup> real)" where
  "trackFaces clock hist multiFaceLandmarks =
     (case multiFaceLandmarks of None \<Rightarrow> ([], hist) | Some sets \<Rightarrow> updateAll clock hist sets 0)"

text \<open>The second \<open>forEach\<close>: every face is rendered, in order; a throw ends the callback.\<close>

fun renderAll ::
  "(string \<Rightarrow> real) \<Rightarrow> real \<Rightarrow> real \<Rightarrow> string \<Rightarrow> nat option \<Rightarrow> FaceLandmark list list \<Rightarrow> nat
     \<Rightarrow> JsError + DrawOp list" where
  "renderAll measureText canvasWidth canvasHeight captionText speakingFaceId [] index = Inr []"
| "renderAll measureText canvasWidth canvasHeight captionText speakingFaceId (lms # rest) index =
     bindE (FaceMeshRenderer measureText lms canvasWidth canvasHeight captionText
              (Some index = speakingFaceId))
       (\<lambda>ops. bindE (renderAll measureText canvasWidth canvasHeight captionText speakingFaceId
                       rest (Suc index))
          (\<lambda>more. Inr (ops @ more)))"

text \<open>
  \<open>onResults\<close>. The result is the new state, the arguments of the calls of
  \<open>onActiveFaceChange\<close> made during the pass, and the drawing calls. \<open>canvasAvailable\<close>
  stands for the two early returns (no canvas element, no 2-D context); \<open>selectClock\<close> is
  the time read by \<open>determineSpeakingFace\<close>.
\<close>

definition onResults ::
  "bool \<Rightarrow> (nat \<Rightarrow> int) \<Rightarrow> int \<Rightarrow> (string \<Rightarrow> real) \<Rightarrow> real \<Rightarrow> real \<Rightarrow> string
     \<Rightarrow> FaceLandmark list list option \<Rightarrow> ViewState
     \<Rightarrow> JsError + (ViewState \<times> nat option list \<times> DrawOp list)" where
  "onResults canvasAvailable updateClock selectClock measureText canvasWidth canvasHeight
     captionText multiFaceLandmarks st =
     (if canvasAvailable
      then (let tracked = trackFaces updateClock (previousMouthOpennessRef st) multiFaceLandmarks;
                updatedFaces = fst tracked;
                speakingFaceId = determineSpeakingFace selectClock (activeFaceIdRef st) updatedFaces;
                notified = (if speakingFaceId \<noteq> activeFaceIdRef st then [speakingFaceId] else [])
            in bindE (case multiFaceLandmarks of
                        None \<Rightarrow> Inr []
                      | Some sets \<Rightarrow> renderAll measureText canvasWidth canvasHeight captionText
                                      speakingFaceId sets 0)
                 (\<lambda>ops. Inr (st\<lparr>previousMouthOpennessRef := snd tracked, faces := updatedFaces\<rparr>,
                              notified, ops)))
      else Inr (st, [], []))"

section \<open>Example inputs\<close>

definition sampleLandmark :: FaceLandmark where
  "sampleLandmark = \<lparr>lm_x = 1 / 2, lm_y = 1 / 4, lm_z = 0\<rparr>"

text \<open>
  Eighteen landmarks at the origin, except landmark 14 and landmark 17: the pairs with both
  indices present are \<open>(0, 14)\<close> and \<open>(13, 17)\<close>, at distances 7 and 3.
\<close>

definition exampleLandmarks :: "FaceLandmark list" where
  "exampleLandmarks =
     (replicate 18 \<lparr>lm_x = 0, lm_y = 0, lm_z = 0\<rparr>)
       [14 := \<lparr>lm_x = 2, lm_y = 3, lm_z = 6\<rparr>, 17 := \<lparr>lm_x = 1, lm_y = 2, lm_z = 2\<rparr>]"

text \<open>Three records of one pass at time 1000; faces 1 and 2 tie on the largest openness.\<close>

definition exampleFaces :: "FaceData list" where
  "exampleFaces =
     [\<lparr>faceId = 0, landmarks = [], isMovingMouth = False, mouthOpenDistance = 1 / 100,
        lastUpdateTime = 1000\<rparr>,
      \<lparr>faceId = 1, landmarks = [], isMovingMouth = True, mouthOpenDistance = 5 / 100,
        lastUpdateTime = 1000\<rparr>,
      \<lparr>faceId = 2, landmarks = [], isMovingMouth = False, mouthOpenDistance = 5 / 100,
        lastUpdateTime = 1000\<rparr>]"

text \<open>Two records with no mouth movement, as in the specification's selector example.\<close>

definition idleFace :: "nat \<Rightarrow> real \<Rightarrow> int \<Rightarrow> FaceData" where
  "idleFace i openness t =
     \<lparr>faceId = i, landmarks = [], isMovingMouth = False, mouthOpenDistance = openness,
      lastUpdateTime = t\<rparr>"

definition initialState :: ViewState where
  "initialState = \<lparr>previousMouthOpennessRef = Map.empty, activeFaceIdRef = None, faces = []\<rparr>"

section \<open>Properties of the mouth analysis\<close>

lemma calculateDistance_nonneg: "0 \<le> calculateDistance a b"
  by (simp add: calculateDistance_def Let_def)

lemma calculateDistance_same: "calculateDistance a a = 0"
  by (simp add: calculateDistance_def)

lemma opennessLoop_acc:
  "opennessLoop lms ps (t, c) =
     (t + sum_list (map (pairDistance lms)
            (filter (\<lambda>p. fst p < length lms \<and> snd p < length lms) ps)),
      c + length (filter (\<lambda>p. fst p < length lms \<and> snd p < length lms) ps))"
proof (induction ps arbitrary: t c)
  case Nil
  show ?case by simp
next
  case (Cons p ps)
  obtain u l where p: "p = (u, l)" by (cases p)
  show ?case
    unfolding p by (simp add: Cons.IH arrayGet_def pairDistance_def)
qed

lemma calculateMouthOpenness_eq:
  "calculateMouthOpenness lms =
     (if validPairs lms = [] then 0
      else sum_list (map (pairDistance lms) (validPairs lms)) / real (length (validPairs lms)))"
  by (simp add: calculateMouthOpenness_def opennessLoop_acc validPairs_def)

lemma sum_pairDistance_nonneg: "0 \<le> sum_list (map (pairDistance lms) ps)"
  by (rule sum_list_nonneg) (auto simp: pairDistance_def calculateDistance_nonneg)

lemma sum_pairDistance_zero:
  assumes "list_all (\<lambda>p. lms ! fst p = lms ! snd p) ps"
  shows "sum_list (map (pairDistance lms) ps) = 0"
  using assms by (induction ps) (simp_all add: pairDistance_def calculateDistance_same)

lemma calculateDistance_euclidean:
  "calculateDistance a b =
     sqrt ((lm_x a - lm_x b)\<^sup>2 + (lm_y a - lm_y b)\<^sup>2 + (lm_z a - lm_z b)\<^sup>2)"
  by (simp add: calculateDistance_def Let_def power2_eq_square)

text \<open>
  Claim C1. For every landmark set, the openness is the sum of the 3-D Euclidean distances
  (the square root of the sum of the three squared coordinate differences) over the
  configured upper/lower pairs whose two indices both exist in the set, divided by the
  number of such pairs, and 0 when there is no such pair; it is never negative; and when
  the two points of every such pair coincide it is 0. (Numbers are reals here.)
\<close>

theorem calculateMouthOpenness_spec:
  "calculateMouthOpenness lms =
     (if validPairs lms = [] then 0
      else sum_list (map (\<lambda>p. sqrt ((lm_x (lms ! fst p) - lm_x (lms ! snd p))\<^sup>2
                                    + (lm_y (lms ! fst p) - lm_y (lms ! snd p))\<^sup>2
                                    + (lm_z (lms ! fst p) - lm_z (lms ! snd p))\<^sup>2))
                       (validPairs lms))
             / real (length (validPairs lms)))
   \<and> 0 \<le> calculateMouthOpenness lms
   \<and> (list_all (\<lambda>p. lms ! fst p = lms ! snd p) (validPairs lms)
        \<longrightarrow> calculateMouthOpenness lms = 0)"
proof -
  have eq: "map (\<lambda>p. sqrt ((lm_x (lms ! fst p) - lm_x (lms ! snd p))\<^sup>2
                            + (lm_y (lms ! fst p) - lm_y (lms ! snd p))\<^sup>2
                            + (lm_z (lms ! fst p) - lm_z (lms ! snd p))\<^sup>2)) (validPairs lms)
              = map (pairDistance lms) (validPairs lms)"
    by (simp add: pairDistance_def calculateDistance_euclidean)
  have nonneg: "0 \<le> calculateMouthOpenness lms"
    by (simp add: calculateMouthOpenness_eq sum_pairDistance_nonneg)
  have zero: "calculateMouthOpenness lms = 0"
    if "list_all (\<lambda>p. lms ! fst p = lms ! snd p) (validPairs lms)"
    using that by (simp add: calculateMouthOpenness_eq sum_pairDistance_zero)
  show ?thesis
    using nonneg zero by (simp only: eq calculateMouthOpenness_eq) simp
qed

lemma validPairs_exampleLandmarks: "validPairs exampleLandmarks = [(0, 14), (13, 17)]"
  by (simp add: validPairs_def exampleLandmarks_def upperLipPoints_def lowerLipPoints_def)

lemma sqrt_49: "sqrt 49 = 7"
  by (rule real_sqrt_unique) simp_all

lemma sqrt_9: "sqrt 9 = 3"
  by (rule real_sqrt_unique) simp_all

text \<open>
  The witness: 410 equal landmarks give openness 0, and the example landmarks, whose two
  valid pairs are at distances 7 and 3, give openness 5.
\<close>

theorem calculateMouthOpenness_spec_witness:
  "list_all (\<lambda>p. replicate 410 sampleLandmark ! fst p = replicate 410 sampleLandmark ! snd p)
     (validPairs (replicate 410 sampleLandmark))
   \<and> calculateMouthOpenness (replicate 410 sampleLandmark) = 0
   \<and> calculateMouthOpenness exampleLandmarks = 5"
proof -
  have h: "list_all (\<lambda>p. replicate 410 sampleLandmark ! fst p
                          = replicate 410 sampleLandmark ! snd p)
             (validPairs (replicate 410 sampleLandmark))"
    by (simp add: validPairs_def upperLipPoints_def lowerLipPoints_def)
  have z: "calculateMouthOpenness (replicate 410 sampleLandmark) = 0"
    using h calculateMouthOpenness_spec [of "replicate 410 sampleLandmark"] by blast
  have "calculateMouthOpenness exampleLandmarks = (sqrt 49 + sqrt 9) / 2"
    using calculateMouthOpenness_spec [of exampleLandmarks]
    by (simp add: validPairs_exampleLandmarks) (simp add: exampleLandmarks_def)
  then have five: "calculateMouthOpenness exampleLandmarks = 5"
    by (simp add: sqrt_49 sqrt_9)
  show ?thesis
    using h z five by simp
qed

text \<open>
  Claim C2. When the face id has no entry in the openness history, \<open>detectMouthMovement\<close>
  returns false whatever the openness \<open>x\<close> is, and the history afterwards holds \<open>x\<close> for
  that id.
\<close>

theorem detectMouthMovement_first_sighting:
  "hist fid = None \<Longrightarrow>
     \<not> fst (detectMouthMovement hist fid x)
     \<and> snd (detectMouthMovement hist fid x) fid = Some x"
  by (simp add: detectMouthMovement_def orDefault_def MOUTH_MOVEMENT_THRESHOLD_def)

theorem detectMouthMovement_first_sighting_witness:
  "(Map.empty :: nat \<rightharpoonup> real) 0 = None
   \<and> \<not> fst (detectMouthMovement Map.empty 0 (1 / 2))
   \<and> snd (detectMouthMovement Map.empty 0 (1 / 2)) 0 = Some (1 / 2)"
  using detectMouthMovement_first_sighting [of Map.empty 0 "1 / 2"] by simp

text \<open>
  Two calls in a row for one id. When the first openness \<open>v1\<close> is not 0, the second call
  compares against it with the strict threshold.
\<close>

lemma detectMouthMovement_twice_nonzero:
  "v1 \<noteq> 0 \<Longrightarrow>
     fst (detectMouthMovement (snd (detectMouthMovement hist fid v1)) fid v2)
       \<longleftrightarrow> \<bar>v2 - v1\<bar> > 3 / 1000"
  by (simp add: detectMouthMovement_def orDefault_def MOUTH_MOVEMENT_THRESHOLD_def)

text \<open>
  Claim C3 says that after \<open>detect(id, v1)\<close> the call \<open>detect(id, v2)\<close> returns true exactly
  when \<open>\<bar>v2 - v1\<bar> > 0.003\<close>. The code reads the stored baseline through \<open>||\<close>, which
  discards a stored 0: with \<open>v1 = 0\<close> and \<open>v2 = 0.01\<close> the difference is above the threshold
  and the second call still returns false.
\<close>

theorem detectMouthMovement_zero_baseline_lost:
  "\<not> fst (detectMouthMovement (snd (detectMouthMovement Map.empty 0 0)) 0 (1 / 100))
   \<and> \<bar>1 / 100 - (0::real)\<bar> > 3 / 1000"
  by (simp add: detectMouthMovement_def orDefault_def MOUTH_MOVEMENT_THRESHOLD_def)

section \<open>Properties of the active speaker selection\<close>

lemma length_insertBy: "length (insertBy cmp a xs) = Suc (length xs)"
  by (induction xs) simp_all

lemma length_arraySort: "length (arraySort cmp xs) = length xs"
  by (induction xs) (simp_all add: length_insertBy)

lemma arraySort_Nil_iff: "arraySort cmp xs = [] \<longleftrightarrow> xs = []"
  using length_arraySort [of cmp xs] by (metis length_0_conv)

lemma hd_insertBy:
  "hd (insertBy cmp a xs) = (if xs = [] then a else if cmp a (hd xs) \<le> 0 then a else hd xs)"
  by (cases xs) simp_all

text \<open>
  The head of the array sorted by descending key is the first element, in the original
  order, that carries the largest key.
\<close>

lemma hd_arraySort_largest:
  fixes key :: "'a \<Rightarrow> real"
  assumes "xs \<noteq> []"
  shows "\<exists>i<length xs. hd (arraySort (\<lambda>a b. key b - key a) xs) = xs ! i
           \<and> (\<forall>j<length xs. key (xs ! j) \<le> key (xs ! i))
           \<and> (\<forall>j<i. key (xs ! j) < key (xs ! i))"
  using assms
proof (induction xs)
  case Nil
  then show ?case by simp
next
  case (Cons a as)
  show ?case
  proof (cases "as = []")
    case True
    then show ?thesis by simp
  next
    case False
    from Cons.IH [OF False] obtain i where i: "i < length as"
      and h: "hd (arraySort (\<lambda>a b. key b - key a) as) = as ! i"
      and mx: "\<forall>j<length as. key (as ! j) \<le> key (as ! i)"
      and before: "\<forall>j<i. key (as ! j) < key (as ! i)"
      by blast
    have ne: "arraySort (\<lambda>a b. key b - key a) as \<noteq> []"
      using False by (simp add: arraySort_Nil_iff)
    show ?thesis
    proof (cases "key (as ! i) \<le> key a")
      case True
      have "hd (arraySort (\<lambda>a b. key b - key a) (a # as)) = a"
        using True ne h by (simp add: hd_insertBy)
      moreover have "\<forall>j<length (a # as). key ((a # as) ! j) \<le> key a"
        using mx True by (auto simp: nth_Cons split: nat.splits)
      ultimately show ?thesis
        by (intro exI [of _ 0]) simp
    next
      case False
      then have lt: "key a < key (as ! i)" by simp
      have "hd (arraySort (\<lambda>a b. key b - key a) (a # as)) = as ! i"
        using False ne h by (simp add: hd_insertBy)
      moreover have "\<forall>j<length (a # as). key ((a # as) ! j) \<le> key (as ! i)"
        using mx lt by (auto simp: nth_Cons split: nat.splits)
      moreover have "\<forall>j<Suc i. key ((a # as) ! j) < key (as ! i)"
        using before lt by (auto simp: nth_Cons split: nat.splits)
      ultimately show ?thesis
        using i by (intro exI [of _ "Suc i"]) simp
    qed
  qed
qed

lemma movingFacesOf_fresh:
  "\<forall>f \<in> set fs. lastUpdateTime f = t \<Longrightarrow> movingFacesOf t fs = fs"
  by (simp add: movingFacesOf_def MOUTH_MOVEMENT_TIMEOUT_def)

lemma determineSpeakingFace_nonempty:
  "movingFacesOf t fs \<noteq> [] \<Longrightarrow>
   determineSpeakingFace t prev fs =
     Some (faceId (hd (arraySort (\<lambda>a b. mouthOpenDistance b - mouthOpenDistance a)
                         (movingFacesOf t fs))))"
  by (simp add: determineSpeakingFace_def Let_def arraySort_Nil_iff split: list.splits)

text \<open>
  Claim C4. For a non-empty list of records that all carry the current time as
  \<open>lastUpdateTime\<close>, the timeout clause admits every record, so the filtered list is the
  whole list, and the selector returns the id of the record with the largest
  \<open>mouthOpenDistance\<close>, the earliest such record in frame order when several tie.
\<close>

theorem determineSpeakingFace_fresh_records:
  assumes "fs \<noteq> []" and "\<forall>f \<in> set fs. lastUpdateTime f = t"
  shows "movingFacesOf t fs = fs
     \<and> (\<exists>i<length fs. determineSpeakingFace t prev fs = Some (faceId (fs ! i))
           \<and> (\<forall>j<length fs. mouthOpenDistance (fs ! j) \<le> mouthOpenDistance (fs ! i))
           \<and> (\<forall>j<i. mouthOpenDistance (fs ! j) < mouthOpenDistance (fs ! i)))"
proof -
  have all: "movingFacesOf t fs = fs"
    using assms(2) by (rule movingFacesOf_fresh)
  have sel: "determineSpeakingFace t prev fs =
     Some (faceId (hd (arraySort (\<lambda>a b. mouthOpenDistance b - mouthOpenDistance a) fs)))"
    using determineSpeakingFace_nonempty [of t fs prev] assms(1) all by simp
  from hd_arraySort_largest [OF assms(1), of mouthOpenDistance]
  show ?thesis using all sel by auto
qed

theorem determineSpeakingFace_fresh_records_witness:
  "exampleFaces \<noteq> [] \<and> list_all (\<lambda>f. lastUpdateTime f = 1000) exampleFaces
   \<and> movingFacesOf 1000 exampleFaces = exampleFaces
   \<and> (\<exists>i<length exampleFaces.
         determineSpeakingFace 1000 (Some 0) exampleFaces = Some (faceId (exampleFaces ! i))
         \<and> (\<forall>j<length exampleFaces.
               mouthOpenDistance (exampleFaces ! j) \<le> mouthOpenDistance (exampleFaces ! i))
         \<and> (\<forall>j<i. mouthOpenDistance (exampleFaces ! j) < mouthOpenDistance (exampleFaces ! i)))"
proof -
  have h1: "exampleFaces \<noteq> []"
    by (simp add: exampleFaces_def)
  have h2: "\<forall>f \<in> set exampleFaces. lastUpdateTime f = 1000"
    by (simp add: exampleFaces_def)
  have h3: "list_all (\<lambda>f. lastUpdateTime f = 1000) exampleFaces"
    by (simp add: exampleFaces_def)
  show ?thesis
    using h1 h3 determineSpeakingFace_fresh_records [OF h1 h2, of "Some 0"] by blast
qed

text \<open>On the example the tie between faces 1 and 2 goes to face 1.\<close>

lemma determineSpeakingFace_exampleFaces:
  "determineSpeakingFace 1000 (Some 0) exampleFaces = Some 1"
  by (simp add: determineSpeakingFace_def movingFacesOf_def exampleFaces_def
        MOUTH_MOVEMENT_TIMEOUT_def)

text \<open>
  Claim C5. On an empty record list the selector returns the previous active id: that id
  when there is one, and none when there is none.
\<close>

theorem determineSpeakingFace_no_records:
  "determineSpeakingFace t prev [] = prev"
  by (cases prev) (simp_all add: determineSpeakingFace_def movingFacesOf_def)

text \<open>
  Claim C6 says that two records with ids 0 and 1, neither moving, and no previous active
  id give 0. The records of the example leave openness and time open; when both are fresh
  the timeout clause admits them and the larger openness wins, here face 1.
\<close>

theorem determineSpeakingFace_none_moving_counterexample:
  "determineSpeakingFace 1000 None [idleFace 0 (1 / 100) 1000, idleFace 1 (5 / 100) 1000] = Some 1
   \<and> determineSpeakingFace 1000 None [idleFace 0 (1 / 100) 1000, idleFace 1 (5 / 100) 1000]
       \<noteq> Some 0"
  by (simp add: determineSpeakingFace_def movingFacesOf_def idleFace_def
        MOUTH_MOVEMENT_TIMEOUT_def)

text \<open>
  Claim C6, amended. For two records with ids 0 and 1, neither moving, and no previous
  active id, the selector returns 0 exactly when record 1 is outside the timeout window
  (current time minus \<open>lastUpdateTime\<close> at least 1500), or record 0 is inside the window
  and its \<open>mouthOpenDistance\<close> is at least that of record 1.
\<close>

theorem determineSpeakingFace_two_idle:
  assumes "faceId ra = 0" and "faceId rb = 1"
    and "\<not> isMovingMouth ra" and "\<not> isMovingMouth rb"
  shows "determineSpeakingFace t None [ra, rb] = Some 0 \<longleftrightarrow>
     (t - lastUpdateTime rb \<ge> 1500
      \<or> (t - lastUpdateTime ra < 1500 \<and> mouthOpenDistance rb \<le> mouthOpenDistance ra))"
  using assms
  by (auto simp add: determineSpeakingFace_def movingFacesOf_def MOUTH_MOVEMENT_TIMEOUT_def)

theorem determineSpeakingFace_two_idle_witness:
  "faceId (idleFace 0 (1 / 100) 1000) = 0 \<and> faceId (idleFace 1 (5 / 100) 1000) = 1
   \<and> \<not> isMovingMouth (idleFace 0 (1 / 100) 1000) \<and> \<not> isMovingMouth (idleFace 1 (5 / 100) 1000)
   \<and> determineSpeakingFace 5000 None [idleFace 0 (1 / 100) 1000, idleFace 1 (5 / 100) 1000]
       = Some 0"
  using determineSpeakingFace_two_idle
          [of "idleFace 0 (1 / 100) 1000" "idleFace 1 (5 / 100) 1000" 5000]
  by (simp add: idleFace_def)

section \<open>Properties of the overlay renderer\<close>

lemma bindE_Inr: "bindE (Inr v) f = f v"
  by (simp add: bindE_def)

lemma FaceMeshRenderer_absent:
  "arrayGet lms 10 = None \<Longrightarrow> FaceMeshRenderer m lms cw ch cap act = Inr drawMesh"
  by (simp add: FaceMeshRenderer_def truthy_def bindE_Inr)

lemma FaceMeshRenderer_present:
  "arrayGet lms 10 = Some fh \<Longrightarrow>
     FaceMeshRenderer m lms cw ch cap act =
       Inr (drawMesh
            @ drawSphere (lm_x fh * cw) (lm_y fh * ch) 6 (if act then ''#ADD8E6'' else ''#AAAAAA'')
            @ (if cap \<noteq> [] then drawCaption m (lm_x fh * cw) (lm_y fh * ch) cap act else []))"
  by (simp add: FaceMeshRenderer_def truthy_def readX_def readY_def bindE_Inr)

lemma FaceMeshRenderer_total: "\<exists>ops. FaceMeshRenderer m lms cw ch cap act = Inr ops"
  by (cases "arrayGet lms 10") (simp_all add: FaceMeshRenderer_absent FaceMeshRenderer_present)

lemma renderAll_total: "\<exists>ops. renderAll m cw ch cap sp sets i = Inr ops"
proof (induction sets arbitrary: i)
  case Nil
  show ?case by simp
next
  case (Cons lms rest)
  obtain ops where a: "FaceMeshRenderer m lms cw ch cap (Some i = sp) = Inr ops"
    using FaceMeshRenderer_total by blast
  obtain more where b: "renderAll m cw ch cap sp rest (Suc i) = Inr more"
    using Cons.IH by blast
  show ?case by (simp add: a b bindE_Inr)
qed

lemma no_sphere_mesh: "\<not> list_ex isSphere drawMesh"
  by (simp add: drawMesh_def isSphere_def)

lemma no_bubble_mesh: "\<not> list_ex isBubble drawMesh"
  by (simp add: drawMesh_def isBubble_def)

lemma no_bubble_sphere: "\<not> list_ex isBubble (drawSphere a b c d)"
  by (simp add: drawSphere_def isBubble_def)

lemma bubble_caption: "list_ex isBubble (drawCaption m ax ay cap act)"
  by (simp add: drawCaption_def isBubble_def Let_def)

lemma bubbleHeights_append: "bubbleHeights (xs @ ys) = bubbleHeights xs @ bubbleHeights ys"
  by (simp add: bubbleHeights_def)

lemma bubbleHeights_mesh: "bubbleHeights drawMesh = []"
  by (simp add: bubbleHeights_def drawMesh_def)

lemma bubbleHeights_sphere: "bubbleHeights (drawSphere a b c d) = []"
  by (simp add: bubbleHeights_def drawSphere_def)

lemma bubbleHeights_caption:
  "cap \<noteq> [] \<Longrightarrow>
   bubbleHeights (drawCaption m ax ay cap act) =
     [max (20 * real (length (wrapText m cap 260)) + 20) 46]"
  by (auto simp: drawCaption_def Let_def bubbleHeights_def split: prod.splits)

text \<open>
  Claim C9. For a non-empty caption text (and an anchor landmark to attach the bubble to),
  the height of the drawn bubble is \<open>max (lineHeight * numberOfLines + padding) minimum\<close>
  with line height 20, vertical padding 20 and minimum 46, the lines being those of the
  word wrap at the interior width 260.
\<close>

theorem caption_bubble_height:
  assumes "cap \<noteq> []" and "arrayGet lms 10 = Some fh"
  shows "\<exists>ops. FaceMeshRenderer m lms cw ch cap act = Inr ops
           \<and> bubbleHeights ops = [max (20 * real (length (wrapText m cap 260)) + 20) 46]"
  using assms
  by (simp add: FaceMeshRenderer_present bubbleHeights_append bubbleHeights_mesh
        bubbleHeights_sphere bubbleHeights_caption)

lemma wrapText_two_lines:
  "length (wrapText fixedPitch ''the quick brown fox jumps over the lazy dog today'' 260) = 2"
  by (simp add: wrapText_def flushLine_def testLineOf_def fixedPitch_def)

theorem caption_bubble_height_witness:
  "''the quick brown fox jumps over the lazy dog today'' \<noteq> []
   \<and> arrayGet (replicate 468 sampleLandmark) 10 = Some sampleLandmark
   \<and> (\<exists>ops. FaceMeshRenderer fixedPitch (replicate 468 sampleLandmark) 640 480
               ''the quick brown fox jumps over the lazy dog today'' True = Inr ops
          \<and> bubbleHeights ops = [60])"
proof -
  have h1: "''the quick brown fox jumps over the lazy dog today'' \<noteq> []"
    by simp
  have h2: "arrayGet (replicate 468 sampleLandmark) 10 = Some sampleLandmark"
    by (simp add: arrayGet_def)
  show ?thesis
    using h2 caption_bubble_height [OF h1 h2, of fixedPitch 640 480 True]
    by (simp add: wrapText_two_lines)
qed

text \<open>
  Claim C10. The renderer never throws. When landmark 10 is absent, neither the forehead
  marker nor the caption bubble is drawn; and the bubble is drawn only when landmark 10
  exists and the caption text is non-empty (and then it is drawn).
\<close>

theorem FaceMeshRenderer_anchor_guard:
  "\<exists>ops. FaceMeshRenderer m lms cw ch cap act = Inr ops
     \<and> (arrayGet lms 10 = None \<longrightarrow> \<not> list_ex isSphere ops \<and> \<not> list_ex isBubble ops)
     \<and> (list_ex isBubble ops \<longleftrightarrow> arrayGet lms 10 \<noteq> None \<and> cap \<noteq> [])"
proof (cases "arrayGet lms 10")
  case None
  then show ?thesis
    by (simp add: FaceMeshRenderer_absent no_sphere_mesh no_bubble_mesh)
next
  case (Some fh)
  then show ?thesis
    by (simp add: FaceMeshRenderer_present no_bubble_mesh no_bubble_sphere bubble_caption)
qed

theorem FaceMeshRenderer_anchor_guard_witness:
  "arrayGet (replicate 5 sampleLandmark) 10 = None
   \<and> (\<exists>ops. FaceMeshRenderer fixedPitch (replicate 5 sampleLandmark) 640 480 ''hello'' True
               = Inr ops
         \<and> \<not> list_ex isSphere ops \<and> \<not> list_ex isBubble ops)"
proof -
  have absent: "arrayGet (replicate 5 sampleLandmark) 10 = None"
    by (simp add: arrayGet_def)
  from FaceMeshRenderer_anchor_guard
         [of fixedPitch "replicate 5 sampleLandmark" 640 480 "''hello''" True]
  show ?thesis using absent by auto
qed

section \<open>Properties of the per-frame callback\<close>

text \<open>
  Claim C7. In a pass of \<open>onResults\<close> (the canvas being available, so that the pass runs),
  \<open>onActiveFaceChange\<close> is called, once and with the selected id, exactly when the id
  returned by \<open>determineSpeakingFace\<close> differs from the active id held in
  \<open>activeFaceIdRef\<close>; when the two are equal it is not called.
\<close>

theorem onResults_notifies_on_change:
  assumes "canvasAvailable"
  shows "\<exists>st' notified ops.
           onResults canvasAvailable uc sc m cw ch cap mfl st = Inr (st', notified, ops)
           \<and> notified =
               (if determineSpeakingFace sc (activeFaceIdRef st)
                     (fst (trackFaces uc (previousMouthOpennessRef st) mfl)) \<noteq> activeFaceIdRef st
                then [determineSpeakingFace sc (activeFaceIdRef st)
                        (fst (trackFaces uc (previousMouthOpennessRef st) mfl))]
                else [])"
proof (cases mfl)
  case None
  then show ?thesis using assms by (simp add: onResults_def Let_def bindE_Inr)
next
  case (Some sets)
  obtain ops where "renderAll m cw ch cap
      (determineSpeakingFace sc (activeFaceIdRef st)
         (fst (trackFaces uc (previousMouthOpennessRef st) mfl))) sets 0 = Inr ops"
    using renderAll_total by blast
  then show ?thesis using assms Some by (simp add: onResults_def Let_def bindE_Inr)
qed

lemma first_face_selected:
  "determineSpeakingFace 1000 None (fst (trackFaces (\<lambda>i. 1000) Map.empty (Some [[]]))) = Some 0"
  by (simp add: trackFaces_def updateFaceData_def determineSpeakingFace_def movingFacesOf_def
        Let_def MOUTH_MOVEMENT_TIMEOUT_def)

theorem onResults_notifies_on_change_witness:
  "True \<and> (\<exists>st' ops. onResults True (\<lambda>i. 1000) 1000 fixedPitch 640 480 ''hi'' (Some [[]])
                        initialState = Inr (st', [Some 0], ops))"
  using onResults_notifies_on_change
          [OF TrueI, of "\<lambda>i. 1000" 1000 fixedPitch 640 480 "''hi''" "Some [[]]" initialState]
  by (simp add: initialState_def first_face_selected)

section \<open>Properties of the word wrap\<close>

lemma splitOn_nonempty: "splitOn sep s \<noteq> []"
  by (induction s) (auto split: list.splits)

lemma joinSpaces_Cons:
  "joinSpaces (l # ls) = (if ls = [] then l else l @ '' '' @ joinSpaces ls)"
  by (cases ls) simp_all

lemma joinSpaces_splitOn: "joinSpaces (splitOn CHR '' '' s) = s"
proof (induction s)
  case Nil
  show ?case by simp
next
  case (Cons c cs)
  obtain w ws where sp: "splitOn CHR '' '' cs = w # ws"
    using splitOn_nonempty [of "CHR '' ''" cs] by (cases "splitOn CHR '' '' cs") auto
  show ?case
    using Cons.IH by (simp add: sp joinSpaces_Cons split: if_splits)
qed

lemma splitOn_append_sep:
  "splitOn sep (a @ sep # b) = splitOn sep a @ splitOn sep b"
proof (induction a)
  case Nil
  show ?case by simp
next
  case (Cons c cs)
  obtain w ws where sp: "splitOn sep cs = w # ws"
    using splitOn_nonempty [of sep cs] by (cases "splitOn sep cs") auto
  show ?case
    using Cons.IH by (simp add: sp)
qed

lemma splitOn_no_sep: "sep \<notin> set w \<Longrightarrow> splitOn sep w = [w]"
  by (induction w) auto

lemma splitOn_words_no_sep: "w \<in> set (splitOn sep s) \<Longrightarrow> sep \<notin> set w"
proof (induction s arbitrary: w)
  case Nil
  then show ?case by simp
next
  case (Cons c cs)
  obtain v vs where sp: "splitOn sep cs = v # vs"
    using splitOn_nonempty [of sep cs] by (cases "splitOn sep cs") auto
  have v: "sep \<notin> set v" and vs: "\<And>u. u \<in> set vs \<Longrightarrow> sep \<notin> set u"
    using Cons.IH sp by auto
  show ?case
    using Cons.prems v vs by (auto simp: sp split: if_splits)
qed

lemma wrapLoop_step:
  "wrapLoop m W (w # ws) (ls, cur) =
     (if m (testLineOf cur w) > W \<and> cur \<noteq> []
      then wrapLoop m W ws (ls @ [cur], w)
      else wrapLoop m W ws (ls, testLineOf cur w))"
  by (simp add: Let_def)

declare wrapLoop.simps(2) [simp del]

lemma nonEmptyWords_Cons: "nonEmptyWords (w # ws) = nonEmptyWords [w] @ nonEmptyWords ws"
  by (simp add: nonEmptyWords_def)

lemma joinSpaces_merge:
  "joinSpaces (xs @ (a @ '' '' @ b) # ys) = joinSpaces (xs @ a # b # ys)"
  by (induction xs) (simp_all add: joinSpaces_Cons)

text \<open>Round trip, from a state with a non-empty current line.\<close>

lemma wrapLoop_join:
  assumes "[] \<notin> set ws" and "cur \<noteq> []"
  shows "joinSpaces (flushLine (wrapLoop m W ws (ls, cur))) = joinSpaces (ls @ cur # ws)"
  using assms
proof (induction ws arbitrary: ls cur)
  case Nil
  then show ?case by (simp add: flushLine_def)
next
  case (Cons w ws)
  have w: "w \<noteq> []" and ws: "[] \<notin> set ws"
    using Cons.prems(1) by auto
  show ?case
  proof (cases "m (testLineOf cur w) > W")
    case True
    then have "wrapLoop m W (w # ws) (ls, cur) = wrapLoop m W ws (ls @ [cur], w)"
      using Cons.prems(2) by (simp add: wrapLoop_step)
    then show ?thesis
      using Cons.IH [OF ws w, of "ls @ [cur]"] by simp
  next
    case False
    have t: "testLineOf cur w = cur @ '' '' @ w"
      using Cons.prems(2) by (simp add: testLineOf_def)
    have "wrapLoop m W (w # ws) (ls, cur) = wrapLoop m W ws (ls, cur @ '' '' @ w)"
      using False t by (simp add: wrapLoop_step)
    moreover have "cur @ '' '' @ w \<noteq> []"
      by simp
    ultimately show ?thesis
      using Cons.IH [OF ws, of "cur @ '' '' @ w" ls] joinSpaces_merge [of ls cur w ws]
      by simp
  qed
qed

lemma wrapLoop_first:
  "wrapLoop m W (w # ws) ([], []) = wrapLoop m W ws ([], w)"
  by (simp add: wrapLoop_step testLineOf_def)

lemma wrapText_join:
  assumes "[] \<notin> set (splitOn CHR '' '' str)"
  shows "joinSpaces (wrapText m str W) = str"
proof -
  obtain w ws where sp: "splitOn CHR '' '' str = w # ws"
    using splitOn_nonempty [of "CHR '' ''" str] by (cases "splitOn CHR '' '' str") auto
  have w: "w \<noteq> []" and ws: "[] \<notin> set ws"
    using assms sp by auto
  have "joinSpaces (wrapText m str W) = joinSpaces (w # ws)"
    using wrapLoop_join [OF ws w, of m W "[]"] by (simp add: wrapText_def sp wrapLoop_first)
  then show ?thesis
    using joinSpaces_splitOn [of str] by (simp add: sp)
qed

text \<open>Words are kept whole and in order, from any state.\<close>

lemma nonEmptyWords_append: "nonEmptyWords (xs @ ys) = nonEmptyWords xs @ nonEmptyWords ys"
  by (simp add: nonEmptyWords_def)

lemma wrapLoop_words:
  assumes "\<forall>w \<in> set ws. CHR '' '' \<notin> set w"
  shows "nonEmptyWords (concat (map (splitOn CHR '' '') (flushLine (wrapLoop m W ws (ls, cur)))))
       = nonEmptyWords (concat (map (splitOn CHR '' '') (ls @ [cur]))) @ nonEmptyWords ws"
  using assms
proof (induction ws arbitrary: ls cur)
  case Nil
  show ?case by (simp add: flushLine_def nonEmptyWords_def)
next
  case (Cons w ws)
  have w: "splitOn CHR '' '' w = [w]" and ws: "\<forall>w \<in> set ws. CHR '' '' \<notin> set w"
    using Cons.prems by (simp_all add: splitOn_no_sep)
  show ?case
  proof (cases "m (testLineOf cur w) > W \<and> cur \<noteq> []")
    case True
    then have "wrapLoop m W (w # ws) (ls, cur) = wrapLoop m W ws (ls @ [cur], w)"
      by (simp add: wrapLoop_step)
    then show ?thesis
      using Cons.IH [OF ws, of "ls @ [cur]" w]
      by (simp add: w nonEmptyWords_append nonEmptyWords_Cons [of w ws])
  next
    case False
    then have step: "wrapLoop m W (w # ws) (ls, cur) = wrapLoop m W ws (ls, testLineOf cur w)"
      by (auto simp add: wrapLoop_step)
    have "nonEmptyWords (splitOn CHR '' '' (testLineOf cur w))
            = nonEmptyWords (splitOn CHR '' '' cur) @ nonEmptyWords [w]"
    proof (cases "cur = []")
      case True
      then show ?thesis by (simp add: testLineOf_def w nonEmptyWords_def)
    next
      case False
      have "splitOn CHR '' '' (cur @ '' '' @ w) = splitOn CHR '' '' cur @ [w]"
        using splitOn_append_sep [of "CHR '' ''" cur w] by (simp add: w)
      then show ?thesis
        using False by (simp add: testLineOf_def nonEmptyWords_append)
    qed
    then show ?thesis
      using Cons.IH [OF ws, of ls "testLineOf cur w"]
      by (simp add: step nonEmptyWords_append nonEmptyWords_Cons [of w ws])
  qed
qed

lemma wrapText_words:
  "nonEmptyWords (concat (map (splitOn CHR '' '') (wrapText m str W)))
     = nonEmptyWords (splitOn CHR '' '' str)"
proof -
  have "\<forall>w \<in> set (splitOn CHR '' '' str). CHR '' '' \<notin> set w"
    using splitOn_words_no_sep by blast
  from wrapLoop_words [OF this, of m W "[]" "[]"]
  show ?thesis by (simp add: wrapText_def nonEmptyWords_def)
qed

lemma fitsIfSeveral_word: "CHR '' '' \<notin> set w \<Longrightarrow> fitsIfSeveral m W w"
  by (simp add: fitsIfSeveral_def splitOn_no_sep)

lemma wrapLoop_fits:
  assumes "\<forall>w \<in> set ws. CHR '' '' \<notin> set w"
    and "list_all (fitsIfSeveral m W) ls" and "fitsIfSeveral m W cur"
  shows "list_all (fitsIfSeveral m W) (flushLine (wrapLoop m W ws (ls, cur)))"
  using assms
proof (induction ws arbitrary: ls cur)
  case Nil
  then show ?case by (simp add: flushLine_def)
next
  case (Cons w ws)
  have w: "fitsIfSeveral m W w" and ws: "\<forall>w \<in> set ws. CHR '' '' \<notin> set w"
    using Cons.prems(1) by (simp_all add: fitsIfSeveral_word)
  show ?case
  proof (cases "m (testLineOf cur w) > W \<and> cur \<noteq> []")
    case True
    then have "wrapLoop m W (w # ws) (ls, cur) = wrapLoop m W ws (ls @ [cur], w)"
      by (simp add: wrapLoop_step)
    moreover have "list_all (fitsIfSeveral m W) (ls @ [cur])"
      using Cons.prems(2,3) by simp
    ultimately show ?thesis
      using Cons.IH [OF ws _ w, of "ls @ [cur]"] by simp
  next
    case False
    then have step: "wrapLoop m W (w # ws) (ls, cur) = wrapLoop m W ws (ls, testLineOf cur w)"
      by (auto simp add: wrapLoop_step)
    have "fitsIfSeveral m W (testLineOf cur w)"
    proof (cases "cur = []")
      case True
      then show ?thesis using w by (simp add: testLineOf_def)
    next
      case False
      with \<open>\<not> (m (testLineOf cur w) > W \<and> cur \<noteq> [])\<close>
      show ?thesis by (simp add: fitsIfSeveral_def)
    qed
    then show ?thesis
      using Cons.IH [OF ws Cons.prems(2), of "testLineOf cur w"] by (simp add: step)
  qed
qed

lemma wrapText_fits: "list_all (fitsIfSeveral m W) (wrapText m str W)"
proof -
  have "\<forall>w \<in> set (splitOn CHR '' '' str). CHR '' '' \<notin> set w"
    using splitOn_words_no_sep by blast
  from wrapLoop_fits [OF this, of m W "[]" "[]"]
  show ?thesis by (simp add: wrapText_def fitsIfSeveral_def)
qed


text \<open>The greedy layout.\<close>

lemma breaksForced_snoc:
  "breaksForced m W (ls @ [c]) =
     (breaksForced m W ls
      \<and> (ls = [] \<or> m (last ls @ '' '' @ hd (splitOn CHR '' '' c)) > W))"
proof (induction ls)
  case Nil
  show ?case by simp
next
  case (Cons l ls)
  show ?case
  proof (cases ls)
    case Nil
    then show ?thesis by simp
  next
    case (Cons l' ls')
    then show ?thesis using Cons.IH by auto
  qed
qed

lemma hd_splitOn_append_sep:
  "hd (splitOn sep (a @ sep # b)) = hd (splitOn sep a)"
  by (simp add: splitOn_append_sep splitOn_nonempty)

lemma lineFits_iff:
  "lineFits m W l \<longleftrightarrow>
     (\<forall>k. 2 \<le> k \<and> k \<le> length (splitOn CHR '' '' l)
          \<longrightarrow> m (joinSpaces (take k (splitOn CHR '' '' l))) \<le> W)"
  by (auto simp: lineFits_def list_all_iff)

lemma lineFits_word: "CHR '' '' \<notin> set w \<Longrightarrow> lineFits m W w"
  by (simp add: lineFits_def splitOn_no_sep)

lemma lineFits_extend:
  assumes "lineFits m W cur" and "CHR '' '' \<notin> set w" and "m (cur @ '' '' @ w) \<le> W"
  shows "lineFits m W (cur @ '' '' @ w)"
proof -
  have sp: "splitOn CHR '' '' (cur @ CHR '' '' # w) = splitOn CHR '' '' cur @ [w]"
    using assms(2) by (simp add: splitOn_append_sep splitOn_no_sep)
  have "m (joinSpaces (take k (splitOn CHR '' '' cur @ [w]))) \<le> W"
    if k: "2 \<le> k" "k \<le> Suc (length (splitOn CHR '' '' cur))" for k
  proof (cases "k \<le> length (splitOn CHR '' '' cur)")
    case True
    then show ?thesis
      using assms(1) k(1) by (simp add: lineFits_iff)
  next
    case False
    then have "take k (splitOn CHR '' '' cur @ [w]) = splitOn CHR '' '' (cur @ CHR '' '' # w)"
      using k(2) by (simp add: sp)
    then show ?thesis
      using assms(3) by (simp add: joinSpaces_splitOn)
  qed
  then show ?thesis
    by (simp add: lineFits_iff sp)
qed

lemma wrapLoop_greedy:
  assumes "\<forall>w \<in> set ws. w \<noteq> [] \<and> CHR '' '' \<notin> set w"
    and "cur \<noteq> []" and "lineFits m W cur" and "list_all (lineFits m W) ls"
    and "breaksForced m W (ls @ [cur])"
  shows "list_all (lineFits m W) (flushLine (wrapLoop m W ws (ls, cur)))
       \<and> breaksForced m W (flushLine (wrapLoop m W ws (ls, cur)))"
  using assms
proof (induction ws arbitrary: ls cur)
  case Nil
  then show ?case by (simp add: flushLine_def)
next
  case (Cons w ws)
  have w: "w \<noteq> []" "CHR '' '' \<notin> set w"
    and ws: "\<forall>w \<in> set ws. w \<noteq> [] \<and> CHR '' '' \<notin> set w"
    using Cons.prems(1) by simp_all
  have t: "testLineOf cur w = cur @ '' '' @ w"
    using Cons.prems(2) by (simp add: testLineOf_def)
  show ?case
  proof (cases "m (cur @ '' '' @ w) > W")
    case True
    have step: "wrapLoop m W (w # ws) (ls, cur) = wrapLoop m W ws (ls @ [cur], w)"
      using True t Cons.prems(2) by (simp add: wrapLoop_step)
    have "breaksForced m W ((ls @ [cur]) @ [w])"
      using True Cons.prems(5) w(2)
      by (subst breaksForced_snoc) (simp add: splitOn_no_sep)
    moreover have "list_all (lineFits m W) (ls @ [cur])"
      using Cons.prems(3,4) by simp
    ultimately show ?thesis
      using Cons.IH [OF ws w(1) lineFits_word [OF w(2)], of "ls @ [cur]"]
      by (simp add: step)
  next
    case False
    have step: "wrapLoop m W (w # ws) (ls, cur) = wrapLoop m W ws (ls, cur @ '' '' @ w)"
      using False t by (simp add: wrapLoop_step)
    have fit: "lineFits m W (cur @ '' '' @ w)"
      using False by (intro lineFits_extend Cons.prems(3) w(2)) simp
    have "hd (splitOn CHR '' '' (cur @ '' '' @ w)) = hd (splitOn CHR '' '' cur)"
      using hd_splitOn_append_sep [of "CHR '' ''" cur w] by simp
    then have br: "breaksForced m W (ls @ [cur @ '' '' @ w])"
      using Cons.prems(5) by (simp only: breaksForced_snoc)
    have ne: "cur @ '' '' @ w \<noteq> []"
      by simp
    show ?thesis
      using Cons.IH [OF ws ne fit Cons.prems(4) br] by (simp add: step)
  qed
qed

lemma wrapText_greedy:
  assumes "[] \<notin> set (splitOn CHR '' '' str)"
  shows "list_all (lineFits m W) (wrapText m str W) \<and> breaksForced m W (wrapText m str W)"
proof -
  obtain w ws where sp: "splitOn CHR '' '' str = w # ws"
    using splitOn_nonempty [of "CHR '' ''" str] by (cases "splitOn CHR '' '' str") auto
  have nosep: "\<forall>w \<in> set (splitOn CHR '' '' str). CHR '' '' \<notin> set w"
    using splitOn_words_no_sep by blast
  have w: "w \<noteq> []" "CHR '' '' \<notin> set w"
    and ws: "\<forall>w \<in> set ws. w \<noteq> [] \<and> CHR '' '' \<notin> set w"
    using assms nosep sp by auto
  have "breaksForced m W ([] @ [w])"
    by simp
  from wrapLoop_greedy [OF ws w(1) lineFits_word [OF w(2)] _ this]
  show ?thesis
    by (simp add: wrapText_def sp wrapLoop_first)
qed

lemma wrapText_empty: "wrapText m [] W = []"
  by (simp add: wrapText_def flushLine_def testLineOf_def wrapLoop.simps(2))

text \<open>The same two properties for any text, empty words included.\<close>

lemma wrapLoop_lineFits:
  assumes "\<forall>w \<in> set ws. CHR '' '' \<notin> set w"
    and "list_all (lineFits m W) ls" and "lineFits m W cur"
  shows "list_all (lineFits m W) (flushLine (wrapLoop m W ws (ls, cur)))"
  using assms
proof (induction ws arbitrary: ls cur)
  case Nil
  then show ?case by (simp add: flushLine_def)
next
  case (Cons w ws)
  have w: "CHR '' '' \<notin> set w" and ws: "\<forall>w \<in> set ws. CHR '' '' \<notin> set w"
    using Cons.prems(1) by simp_all
  show ?case
  proof (cases "m (testLineOf cur w) > W \<and> cur \<noteq> []")
    case True
    then have "wrapLoop m W (w # ws) (ls, cur) = wrapLoop m W ws (ls @ [cur], w)"
      by (simp add: wrapLoop_step)
    moreover have "list_all (lineFits m W) (ls @ [cur])"
      using Cons.prems(2,3) by simp
    ultimately show ?thesis
      using Cons.IH [OF ws _ lineFits_word [OF w], of "ls @ [cur]"] by simp
  next
    case False
    then have step: "wrapLoop m W (w # ws) (ls, cur) = wrapLoop m W ws (ls, testLineOf cur w)"
      by (auto simp add: wrapLoop_step)
    have "lineFits m W (testLineOf cur w)"
    proof (cases "cur = []")
      case True
      then show ?thesis using w by (simp add: testLineOf_def lineFits_word)
    next
      case nonempty: False
      then have "m (cur @ '' '' @ w) \<le> W"
        using False by (simp add: testLineOf_def)
      then have "lineFits m W (cur @ '' '' @ w)"
        by (intro lineFits_extend Cons.prems(3) w)
      then show ?thesis using nonempty by (simp add: testLineOf_def)
    qed
    then show ?thesis
      using Cons.IH [OF ws Cons.prems(2), of "testLineOf cur w"] by (simp add: step)
  qed
qed

lemma wrapText_lineFits: "list_all (lineFits m W) (wrapText m str W)"
proof -
  have "\<forall>w \<in> set (splitOn CHR '' '' str). CHR '' '' \<notin> set w"
    using splitOn_words_no_sep by blast
  from wrapLoop_lineFits [OF this, of m W "[]" "[]"]
  show ?thesis by (simp add: wrapText_def lineFits_word)
qed

lemma breaksForced_butlast: "breaksForced m W (ls @ [c]) \<Longrightarrow> breaksForced m W ls"
  by (simp add: breaksForced_snoc)

lemma wrapLoop_breaksForced:
  assumes mono: "\<forall>s t. m s \<le> m (s @ t)"
    and "\<forall>w \<in> set ws. CHR '' '' \<notin> set w"
    and "breaksForced m W (ls @ [cur])"
  shows "breaksForced m W (flushLine (wrapLoop m W ws (ls, cur)))"
  using assms(2,3)
proof (induction ws arbitrary: ls cur)
  case Nil
  then show ?case by (simp add: flushLine_def breaksForced_butlast)
next
  case (Cons w ws)
  have w: "CHR '' '' \<notin> set w" and ws: "\<forall>w \<in> set ws. CHR '' '' \<notin> set w"
    using Cons.prems(1) by simp_all
  have hdw: "hd (splitOn CHR '' '' w) = w"
    using w by (simp add: splitOn_no_sep)
  show ?case
  proof (cases "cur = []")
    case True
    have step: "wrapLoop m W (w # ws) (ls, cur) = wrapLoop m W ws (ls, w)"
      using True by (simp add: wrapLoop_step testLineOf_def)
    have "breaksForced m W (ls @ [w])"
    proof (cases "ls = []")
      case True
      then show ?thesis by simp
    next
      case False
      then have "m (last ls @ '' '') > W" and rest: "breaksForced m W ls"
        using Cons.prems(2) \<open>cur = []\<close> by (simp_all add: breaksForced_snoc)
      moreover have "m (last ls @ '' '') \<le> m ((last ls @ '' '') @ w)"
        using mono by blast
      ultimately have "m (last ls @ '' '' @ w) > W"
        by simp
      then show ?thesis
        using rest by (simp add: breaksForced_snoc hdw)
    qed
    then show ?thesis
      using Cons.IH [OF ws, of ls w] by (simp add: step)
  next
    case False
    have t: "testLineOf cur w = cur @ '' '' @ w"
      using False by (simp add: testLineOf_def)
    show ?thesis
    proof (cases "m (cur @ '' '' @ w) > W")
      case True
      have step: "wrapLoop m W (w # ws) (ls, cur) = wrapLoop m W ws (ls @ [cur], w)"
        using True t False by (simp add: wrapLoop_step)
      have "breaksForced m W ((ls @ [cur]) @ [w])"
        using True Cons.prems(2)
        by (subst breaksForced_snoc) (simp add: hdw)
      then show ?thesis
        using Cons.IH [OF ws, of "ls @ [cur]" w] by (simp add: step)
    next
      case nobreak: False
      have step: "wrapLoop m W (w # ws) (ls, cur) = wrapLoop m W ws (ls, cur @ '' '' @ w)"
        using nobreak t by (simp add: wrapLoop_step)
      have "hd (splitOn CHR '' '' (cur @ '' '' @ w)) = hd (splitOn CHR '' '' cur)"
        using hd_splitOn_append_sep [of "CHR '' ''" cur w] by simp
      then have "breaksForced m W (ls @ [cur @ '' '' @ w])"
        using Cons.prems(2) by (simp only: breaksForced_snoc)
      then show ?thesis
        using Cons.IH [OF ws, of ls "cur @ '' '' @ w"] by (simp add: step)
    qed
  qed
qed

lemma wrapText_breaksForced_monotone:
  assumes "\<forall>s t. m s \<le> m (s @ t)"
  shows "breaksForced m W (wrapText m str W)"
proof -
  have nosep: "\<forall>w \<in> set (splitOn CHR '' '' str). CHR '' '' \<notin> set w"
    using splitOn_words_no_sep by blast
  have "breaksForced m W ([] @ [[]])"
    by simp
  from wrapLoop_breaksForced [OF assms nosep this]
  show ?thesis by (simp add: wrapText_def)
qed

text \<open>
  Without monotonicity a break made at an empty word need not show on the output: the
  empty word is dropped and the next word may measure less.
\<close>

lemma wrapText_spikeMeasure: "wrapText spikeMeasure ''a  b'' 50 = [''a'', ''b'']
   \<and> \<not> breaksForced spikeMeasure 50 (wrapText spikeMeasure ''a  b'' 50)"
  by (simp add: wrapText_def flushLine_def testLineOf_def spikeMeasure_def wrapLoop.simps(2))

lemma wrapText_single_word:
  assumes "w \<noteq> []" and "CHR '' '' \<notin> set w"
  shows "wrapText m w W = [w]"
  using assms
  by (simp add: wrapText_def splitOn_no_sep wrapLoop_first flushLine_def)

text \<open>
  Examples with the fixed-pitch measure: two words per line at width 80, and a word wider
  than the width on a line of its own.
\<close>

lemma wrapText_quick_brown_fox:
  "wrapText fixedPitch ''the quick brown fox'' 80 = [''the quick'', ''brown fox'']"
  by (simp add: wrapText_def flushLine_def testLineOf_def fixedPitch_def wrapLoop.simps(2))

lemma wrapText_long_word:
  "wrapText fixedPitch ''hi abcdefghijkl yo'' 16 = [''hi'', ''abcdefghijkl'', ''yo'']"
  by (simp add: wrapText_def flushLine_def testLineOf_def fixedPitch_def wrapLoop.simps(2))

text \<open>
  Claim C8 says, for every caption text, that joining the produced lines with single
  spaces gives the text back. A text that starts with a space loses it: the first word is
  the empty string, which leaves the current line empty.
\<close>

theorem wrapText_roundtrip_counterexample:
  "wrapText fixedPitch '' a'' 260 = [''a'']
   \<and> joinSpaces (wrapText fixedPitch '' a'' 260) \<noteq> '' a''"
  by (simp add: wrapText_def flushLine_def testLineOf_def fixedPitch_def wrapLoop.simps(2))

text \<open>
  Claim C8, amended. For every caption text and maximum width: the non-empty words of the
  produced lines are the non-empty words of the text, in order (no word is split, dropped
  or moved); every produced line of more than one word has measured width at most the
  maximum; within a line every prefix of two or more words fits the width (\<open>lineFits\<close>:
  no line is started while the next word still fits). A line followed by the first word of
  the next line exceeds the width (\<open>breaksForced\<close>: a line is started only when the next
  word does not fit, so that a single over-long word has a line of its own) whenever the
  measure is monotone (appending characters never makes a string narrower), and for any
  measure when the text is empty or has no empty word. Joining the lines with single
  spaces gives the text back when the text is empty or none of its space-separated words
  is empty (no leading, trailing or doubled space).
\<close>

theorem wrapText_layout:
  "nonEmptyWords (concat (map (splitOn CHR '' '') (wrapText m str W)))
     = nonEmptyWords (splitOn CHR '' '' str)
   \<and> (\<forall>l \<in> set (wrapText m str W). 1 < length (splitOn CHR '' '' l) \<longrightarrow> m l \<le> W)
   \<and> list_all (lineFits m W) (wrapText m str W)
   \<and> ((\<forall>s t. m s \<le> m (s @ t)) \<or> str = [] \<or> [] \<notin> set (splitOn CHR '' '' str)
        \<longrightarrow> breaksForced m W (wrapText m str W))
   \<and> (str = [] \<or> [] \<notin> set (splitOn CHR '' '' str)
        \<longrightarrow> joinSpaces (wrapText m str W) = str)"
proof -
  have fits: "\<forall>l \<in> set (wrapText m str W). 1 < length (splitOn CHR '' '' l) \<longrightarrow> m l \<le> W"
    using wrapText_fits [of m W str] by (auto simp: list_all_iff fitsIfSeveral_def)
  have breaks: "breaksForced m W (wrapText m str W)"
    if "(\<forall>s t. m s \<le> m (s @ t)) \<or> str = [] \<or> [] \<notin> set (splitOn CHR '' '' str)"
    using that wrapText_breaksForced_monotone [of m W str] wrapText_greedy [of str m W]
    by (auto simp: wrapText_empty)
  have trip: "joinSpaces (wrapText m str W) = str"
    if "str = [] \<or> [] \<notin> set (splitOn CHR '' '' str)"
    using that wrapText_join [of str m W] by (auto simp: wrapText_empty)
  show ?thesis
    using wrapText_words [of m str W] fits wrapText_lineFits [of m W str] breaks trip by blast
qed

lemma fixedPitch_monotone: "\<forall>s t. fixedPitch s \<le> fixedPitch (s @ t)"
  by (simp add: fixedPitch_def)

theorem wrapText_layout_witness:
  "(\<forall>s t. fixedPitch s \<le> fixedPitch (s @ t))
   \<and> [] \<notin> set (splitOn CHR '' '' ''the quick brown fox'')
   \<and> wrapText fixedPitch ''the quick brown fox'' 80 = [''the quick'', ''brown fox'']
   \<and> joinSpaces (wrapText fixedPitch ''the quick brown fox'' 80) = ''the quick brown fox''
   \<and> list_all (lineFits fixedPitch 80) (wrapText fixedPitch ''the quick brown fox'' 80)
   \<and> breaksForced fixedPitch 80 (wrapText fixedPitch ''the quick brown fox'' 80)
   \<and> list_all (\<lambda>l. fixedPitch l \<le> 80) (wrapText fixedPitch ''the quick brown fox'' 80)
   \<and> breaksForced fixedPitch 8 (wrapText fixedPitch ''a  b'' 8)"
proof -
  have h: "[] \<notin> set (splitOn CHR '' '' ''the quick brown fox'')"
    by simp
  have w: "list_all (\<lambda>l. fixedPitch l \<le> 80) (wrapText fixedPitch ''the quick brown fox'' 80)"
    by (simp add: wrapText_quick_brown_fox fixedPitch_def)
  show ?thesis
    using h w fixedPitch_monotone wrapText_quick_brown_fox
      wrapText_layout [of fixedPitch "''the quick brown fox''" 80]
      wrapText_layout [of fixedPitch "''a  b''" 8]
    by blast
qed

end
